theory Spec2Isabelle
  imports Main "HOL-Library.Word"
begin

section \<open>Bytes and binary files\<close>

text \<open>
  The notebook \<^verbatim>\<open>docs/protobuf_spec.ipynb\<close> serialises several protobufs into one
  binary file. A Python \<^verbatim>\<open>bytes\<close> value is a list of 8-bit words. A binary file object
  is its contents together with the position of the next read or write; \<^verbatim>\<open>write\<close>
  and \<^verbatim>\<open>read\<close> mutate the object, so the model returns the updated file.
\<close>

type_synonym byte = "8 word"
type_synonym bytes = "byte list"

record binary_file =
  contents :: bytes
  pos :: nat

text \<open>\<^verbatim>\<open>open(path, 'wb')\<close>: an empty file, positioned at its start.\<close>

definition open_wb :: binary_file where
  "open_wb = \<lparr>contents = [], pos = 0\<rparr>"

text \<open>\<^verbatim>\<open>open(path, 'rb')\<close> on a file holding \<open>bs\<close>.\<close>

definition open_rb :: "bytes \<Rightarrow> binary_file" where
  "open_rb bs = \<lparr>contents = bs, pos = 0\<rparr>"

text \<open>
  \<^verbatim>\<open>proto_file.write(bs)\<close>: the bytes go to the current position, over what is there
  and past the end (a position beyond the end is filled with zero bytes first), and the
  position moves behind them.
\<close>

definition file_write :: "binary_file \<Rightarrow> bytes \<Rightarrow> binary_file" where
  "file_write f bs =
     f\<lparr>contents := take (pos f) (contents f) @ replicate (pos f - length (contents f)) 0
                     @ bs @ drop (pos f + length bs) (contents f),
       pos := pos f + length bs\<rparr>"

text \<open>
  \<^verbatim>\<open>proto_file.read(n)\<close>: at most \<open>n\<close> bytes from the current position, fewer when
  the file ends first (none at the end of the file); the position moves behind the bytes
  returned. The limits of the machine are not part of the model: Python raises
  \<^verbatim>\<open>OverflowError\<close> or \<^verbatim>\<open>MemoryError\<close> for an \<open>n\<close> that is no possible size of a
  \<^verbatim>\<open>bytes\<close> object, which no length of a record that was written is.
\<close>

definition file_read :: "binary_file \<Rightarrow> nat \<Rightarrow> bytes \<times> binary_file" where
  "file_read f n =
     (let bs = take n (drop (pos f) (contents f))
      in (bs, f\<lparr>pos := pos f + length bs\<rparr>))"

text \<open>The bytes not yet read.\<close>

definition remaining :: "binary_file \<Rightarrow> bytes" where
  "remaining f = drop (pos f) (contents f)"

section \<open>The struct library\<close>

text \<open>
  The exceptions of the notebook's cells: \<^verbatim>\<open>struct.error\<close>, raised by the struct
  library, and \<open>DecodeError\<close>, raised by the codec's \<^verbatim>\<open>ParseFromString\<close> for bytes that
  are no message. Of the errors of section 7 of the specification, \<open>TruncatedLength\<close>,
  \<open>TruncatedPayload\<close> and \<open>MalformedLength\<close> have no counterpart in the notebook;
  \<open>ProtocolViolation\<close> is the error of the write handle of section 4.2, which is
  modelled from the specification below.
\<close>

datatype error = StructError | DecodeError | ProtocolViolation

text \<open>The \<open>k\<close> low-order bytes of \<open>n\<close>, least significant first, and their value.\<close>

primrec le_bytes :: "nat \<Rightarrow> nat \<Rightarrow> bytes" where
  "le_bytes 0 n = []"
| "le_bytes (Suc k) n = of_nat (n mod 256) # le_bytes k (n div 256)"

primrec le_value :: "bytes \<Rightarrow> nat" where
  "le_value [] = 0"
| "le_value (b # bs) = unat b + 256 * le_value bs"

text \<open>
  \<^verbatim>\<open>struct.pack('<Q', n)\<close>: \<open>n\<close> as an unsigned long long, 8 bytes, little-endian;
  \<^verbatim>\<open>struct.error\<close> when \<open>n\<close> does not fit. The argument is a \<^verbatim>\<open>len(...)\<close>, so it is
  never negative.
\<close>

definition struct_pack_Q :: "nat \<Rightarrow> error + bytes" where
  "struct_pack_Q n = (if n < 2 ^ 64 then Inr (le_bytes 8 n) else Inl StructError)"

text \<open>
  \<^verbatim>\<open>struct.unpack('<Q', buf)\<close>: the value of exactly 8 bytes; \<^verbatim>\<open>struct.error\<close> for a
  buffer of any other size.
\<close>

definition struct_unpack_Q :: "bytes \<Rightarrow> error + nat" where
  "struct_unpack_Q buf = (if length buf = 8 then Inr (le_value buf) else Inl StructError)"

section \<open>Writing\<close>

text \<open>
  The body of the notebook's write loop, for one serialised protobuf:
  \<^verbatim>\<open>
  length = struct.pack('<Q', len(proto))
  proto_file.write(length)
  proto_file.write(proto)
  \<close>
  \<open>proto\<close> is the byte string that \<^verbatim>\<open>SerializeToString\<close> returned; the codec itself
  is outside the model.
\<close>

definition write_frame :: "binary_file \<Rightarrow> bytes \<Rightarrow> error + binary_file" where
  "write_frame f proto =
     (case struct_pack_Q (length proto) of
        Inl e \<Rightarrow> Inl e
      | Inr len \<Rightarrow> Inr (file_write (file_write f len) proto))"

text \<open>\<^verbatim>\<open>for proto in protos: ...\<close>\<close>

fun write_protos :: "binary_file \<Rightarrow> bytes list \<Rightarrow> error + binary_file" where
  "write_protos f [] = Inr f"
| "write_protos f (proto # protos) =
     (case write_frame f proto of
        Inl e \<Rightarrow> Inl e
      | Inr f' \<Rightarrow> write_protos f' protos)"

text \<open>
  The bytes that one pass of the loop body puts into the file: the packed length, then
  the payload (the \<open>encode_frame\<close> of the specification).
\<close>

definition encode_frame :: "bytes \<Rightarrow> error + bytes" where
  "encode_frame payload =
     (case struct_pack_Q (length payload) of
        Inl e \<Rightarrow> Inl e
      | Inr len \<Rightarrow> Inr (len @ payload))"

text \<open>
  The \<open>decode_length_prefix\<close> of the specification is the loop's
  \<^verbatim>\<open>length, = struct.unpack('<Q', length)\<close>.
\<close>

definition decode_length_prefix :: "bytes \<Rightarrow> error + nat" where
  "decode_length_prefix bytes8 = struct_unpack_Q bytes8"

section \<open>Reading\<close>

text \<open>
  The notebook's read loop:
  \<^verbatim>\<open>
  length = proto_file.read(8)  # 8 = long long
  while length:
      length, = struct.unpack('<Q', length)
      proto = Proto()
      proto.ParseFromString(proto_file.read(length))
      length = proto_file.read(8)
  \<close>
  \<open>read_loop ParseFromString len f\<close> is the \<^verbatim>\<open>while\<close> statement, entered with the bytes
  \<open>len\<close> just read. The codec is not part of the source, so its parser is a parameter:
  \<open>ParseFromString payload\<close> is \<open>Inr\<close> the message, or \<open>Inl\<close> the exception it raises
  for bytes that are no message, which ends the loop as \<^verbatim>\<open>struct.error\<close> does. The
  loop returns the messages parsed, in order, and the file as it leaves it. A byte
  string is empty exactly when Python takes it for false. Nothing in the loop compares
  the number of bytes that \<^verbatim>\<open>read(length)\<close> returns with \<open>length\<close>.
\<close>

function read_loop ::
  "(bytes \<Rightarrow> error + 'p) \<Rightarrow> bytes \<Rightarrow> binary_file \<Rightarrow> error + ('p list \<times> binary_file)" where
  "read_loop ParseFromString len f =
     (if len = [] then Inr ([], f)
      else (case struct_unpack_Q len of
        Inl e \<Rightarrow> Inl e
      | Inr n \<Rightarrow>
          (case file_read f n of (payload, f1) \<Rightarrow>
            (case ParseFromString payload of
               Inl e \<Rightarrow> Inl e
             | Inr proto \<Rightarrow>
                 (case file_read f1 8 of (len', f2) \<Rightarrow>
                   (case read_loop ParseFromString len' f2 of
                      Inl e \<Rightarrow> Inl e
                    | Inr (protos, f3) \<Rightarrow> Inr (proto # protos, f3)))))))"
  by pat_completeness auto
termination
  apply (relation "measure (\<lambda>(P, len, f). length len + length (remaining f))")
   apply simp
  apply (case_tac len)
   apply (auto simp: file_read_def remaining_def Let_def)
  apply arith
  done

text \<open>The whole cell: the first \<^verbatim>\<open>read(8)\<close>, then the loop.\<close>

definition read_file ::
  "(bytes \<Rightarrow> error + 'p) \<Rightarrow> binary_file \<Rightarrow> error + ('p list \<times> binary_file)" where
  "read_file ParseFromString f =
     (case file_read f 8 of (len, f1) \<Rightarrow> read_loop ParseFromString len f1)"

text \<open>
  The cell for a codec in which every byte string is a message and stands for itself:
  the records it returns are the byte strings handed to \<^verbatim>\<open>ParseFromString\<close>. This is
  the framing alone, and all that matters where the payloads are serialisations that
  the parser accepts.
\<close>

definition read_protos :: "binary_file \<Rightarrow> error + (bytes list \<times> binary_file)" where
  "read_protos f = read_file Inr f"

text \<open>
  One record at a time (the \<open>read_record\<close> of the specification): the loop's steps
  from one read of a length to the next, that is \<^verbatim>\<open>read(8)\<close>, the test of the
  \<^verbatim>\<open>while\<close>, \<^verbatim>\<open>struct.unpack\<close> and \<^verbatim>\<open>read(length)\<close>. \<open>None\<close> is the end of the
  stream, where the loop stops. The record is the byte string that is handed to
  \<^verbatim>\<open>ParseFromString\<close>; parsing it is not part of this step. The file is returned in
  every case, as it is after the call.
\<close>

definition read_record :: "binary_file \<Rightarrow> (error + bytes option) \<times> binary_file" where
  "read_record f =
     (case file_read f 8 of (len, f1) \<Rightarrow>
        if len = [] then (Inr None, f1)
        else (case struct_unpack_Q len of
                Inl e \<Rightarrow> (Inl e, f1)
              | Inr n \<Rightarrow> (case file_read f1 n of (proto, f2) \<Rightarrow> (Inr (Some proto), f2))))"

text \<open>\<open>n\<close> calls of \<open>read_record\<close> in a row on the same file object, with their results.\<close>

primrec read_records :: "nat \<Rightarrow> binary_file \<Rightarrow> (error + bytes option) list \<times> binary_file" where
  "read_records 0 f = ([], f)"
| "read_records (Suc n) f =
     (case read_record f of (r, f1) \<Rightarrow>
        (case read_records n f1 of (rs, f2) \<Rightarrow> (r # rs, f2)))"

section \<open>Metadata\<close>

text \<open>
  The notebook has no code cell for the metadata, only the sentences "This is achieved
  by encoding the metadata as a bytestring and writing it before we write any
  protobufs. As with protobufs, we must store the length of the metadata before the
  metadata itself, and we again use an unsigned long long." and "Reading the files back
  in is the inverse of the above; we simply unpack instead of packing". The code that
  writes and reads the metadata is therefore missing, and is modelled from these
  sentences and from the specification (sections 3, 4.2 and 6). Neither the notebook's
  code nor its text has a handle or any record of what has been written: that the
  metadata comes first, and once, is the caller's doing.
\<close>

text \<open>
  Modelled from the spec: the writer of a whole file, missing from the notebook. "An
  optional single Metadata Frame at offset 0, followed by zero or more Record Frames":
  the metadata, if any, is written by the steps of the write loop's body, and then the
  write loop runs.
\<close>

definition write_container :: "binary_file \<Rightarrow> bytes option \<Rightarrow> bytes list \<Rightarrow> error + binary_file" where
  "write_container f metadata protos =
     (case metadata of
        None \<Rightarrow> write_protos f protos
      | Some m \<Rightarrow>
          (case write_frame f m of
             Inl e \<Rightarrow> Inl e
           | Inr f' \<Rightarrow> write_protos f' protos))"

text \<open>
  Modelled from the spec: the reader of the metadata frame, missing from the notebook.
  "The inverse of the above; we simply unpack instead of packing": \<^verbatim>\<open>read(8)\<close>,
  \<^verbatim>\<open>struct.unpack\<close> and \<^verbatim>\<open>read(length)\<close>, as the read loop does for a record, with
  no test for the end of the file, since a file with metadata has these bytes.
\<close>

definition read_metadata :: "binary_file \<Rightarrow> error + (bytes \<times> binary_file)" where
  "read_metadata f =
     (case file_read f 8 of (len, f1) \<Rightarrow>
        (case struct_unpack_Q len of
           Inl e \<Rightarrow> Inl e
         | Inr n \<Rightarrow> (case file_read f1 n of (metadata, f2) \<Rightarrow> Inr (metadata, f2))))"

text \<open>
  Modelled from the spec: the reader of a whole file, missing from the notebook.
  \<open>expect_metadata\<close> "tells the reader whether to consume a leading metadata frame"
  (section 4.2); the records are then read by the read loop.
\<close>

definition read_container ::
  "bool \<Rightarrow> binary_file \<Rightarrow> error + (bytes option \<times> bytes list \<times> binary_file)" where
  "read_container expect_metadata f =
     (if expect_metadata then
        (case read_metadata f of
           Inl e \<Rightarrow> Inl e
         | Inr (m, f1) \<Rightarrow>
             (case read_protos f1 of
                Inl e \<Rightarrow> Inl e
              | Inr (protos, f2) \<Rightarrow> Inr (Some m, protos, f2)))
      else
        (case read_protos f of
           Inl e \<Rightarrow> Inl e
         | Inr (protos, f2) \<Rightarrow> Inr (None, protos, f2)))"

section \<open>The wire format\<close>

text \<open>
  The grammar of the specification (section 6), \<open>Frame ::= LengthPrefix Payload\<close> and
  \<open>Container ::= Frame*\<close>, as a function of the payloads; the writer is compared with it.
\<close>

definition wire_frame :: "bytes \<Rightarrow> bytes" where
  "wire_frame payload = le_bytes 8 (length payload) @ payload"

definition wire_frames :: "bytes list \<Rightarrow> bytes" where
  "wire_frames payloads = concat (map wire_frame payloads)"

section \<open>A sample parser\<close>

text \<open>
  The closed examples about cut payloads need a \<^verbatim>\<open>ParseFromString\<close>. The codec is
  outside the source, so the sample takes two facts of protobuf's parser (the messages
  of \<^verbatim>\<open>acton.proto\<close> are proto3) and nothing more: the empty byte string is a message,
  the one with every field at its default; and of the serialisation \<open>0A 03 01 02 03\<close>
  (field 1, length-delimited, the three bytes 01 02 03) the whole is a message while no
  proper non-empty prefix is, the field being cut. A message is returned as its
  serialisation. Every other byte string is rejected; the examples hand none to the
  parser.
\<close>

definition sample_ParseFromString :: "bytes \<Rightarrow> error + bytes" where
  "sample_ParseFromString payload =
     (if payload = [] \<or> payload = [0x0A, 3, 1, 2, 3] then Inr payload else Inl DecodeError)"

section \<open>The write handle of the specification\<close>

text \<open>
  The source has no write handle, no \<open>write_metadata\<close> and no cell that writes the
  metadata. The handle of section 4.2 of the specification is therefore modelled from
  the specification's words. Each call returns its result and the handle as it is after
  the call, unchanged when the call fails. A frame is written by the steps of the body
  of the notebook's write loop.
\<close>

text \<open>
  Modelled from the spec: the write handle, missing from the source. It owns the sink
  and remembers what the rules of section 4.2 depend on: whether the metadata has been
  written, how many records have been written, and whether the handle is closed.
\<close>

record write_handle =
  sink :: binary_file
  metadata_written :: bool
  records_written :: nat
  closed :: bool

text \<open>
  Modelled from the spec: \<open>open_for_write(sink) -> WriteHandle\<close>, missing from the
  source; nothing has been written yet.
\<close>

definition open_for_write :: "binary_file \<Rightarrow> write_handle" where
  "open_for_write s = \<lparr>sink = s, metadata_written = False, records_written = 0, closed = False\<rparr>"

text \<open>
  Modelled from the spec: \<open>write_metadata\<close>, missing from the source. It "writes one
  frame for the metadata. Must be called at most once, and if called, before any
  \<open>write_record\<close>. Calling it twice, or after a record has been written, fails with
  \<open>ProtocolViolation\<close>", as does "operating a closed handle" (section 7).
\<close>

definition write_metadata :: "write_handle \<Rightarrow> bytes \<Rightarrow> (error + unit) \<times> write_handle" where
  "write_metadata h metadata_bytes =
     (if closed h \<or> metadata_written h \<or> 0 < records_written h then (Inl ProtocolViolation, h)
      else (case write_frame (sink h) metadata_bytes of
              Inl e \<Rightarrow> (Inl e, h)
            | Inr s \<Rightarrow> (Inr (), h\<lparr>sink := s, metadata_written := True\<rparr>)))"

text \<open>
  Modelled from the spec: \<open>write_record\<close>, missing from the source. It "writes one
  record frame; may be called any number of times, including zero", but not on a closed
  handle ("no further writes permitted afterward").
\<close>

definition write_record :: "write_handle \<Rightarrow> bytes \<Rightarrow> (error + unit) \<times> write_handle" where
  "write_record h record_bytes =
     (if closed h then (Inl ProtocolViolation, h)
      else (case write_frame (sink h) record_bytes of
              Inl e \<Rightarrow> (Inl e, h)
            | Inr s \<Rightarrow> (Inr (), h\<lparr>sink := s, records_written := Suc (records_written h)\<rparr>)))"

text \<open>
  Modelled from the spec: \<open>close\<close>, missing from the source. It "finalizes the sink. No
  further writes permitted afterward (fails with \<open>ProtocolViolation\<close> if attempted)".
\<close>

definition close :: "write_handle \<Rightarrow> (error + unit) \<times> write_handle" where
  "close h = (if closed h then (Inl ProtocolViolation, h) else (Inr (), h\<lparr>closed := True\<rparr>))"

text \<open>A caller's use of a handle: a sequence of calls, run in order, with their results.\<close>

datatype write_call = Write_metadata bytes | Write_record bytes | Close

fun do_call :: "write_handle \<Rightarrow> write_call \<Rightarrow> (error + unit) \<times> write_handle" where
  "do_call h (Write_metadata b) = write_metadata h b"
| "do_call h (Write_record b) = write_record h b"
| "do_call h Close = close h"

fun do_calls :: "write_handle \<Rightarrow> write_call list \<Rightarrow> (error + unit) list \<times> write_handle" where
  "do_calls h [] = ([], h)"
| "do_calls h (c # cs) =
     (case do_call h c of (r, h1) \<Rightarrow>
        (case do_calls h1 cs of (rs, h2) \<Rightarrow> (r # rs, h2)))"

section \<open>Little-endian lengths\<close>

lemma length_le_bytes: "length (le_bytes k n) = k"
  by (induction k arbitrary: n) simp_all

lemma le_value_le_bytes: "le_value (le_bytes k n) = n mod 256 ^ k"
proof (induction k arbitrary: n)
  case 0
  show ?case by simp
next
  case (Suc k)
  have "unat (of_nat (n mod 256) :: byte) = n mod 256"
    by (simp add: unat_of_nat)
  then have "le_value (le_bytes (Suc k) n) = n mod 256 + 256 * (n div 256 mod 256 ^ k)"
    by (simp add: Suc.IH)
  also have "\<dots> = n mod 256 ^ Suc k"
    by (simp add: mod_mult2_eq)
  finally show ?case .
qed

lemma struct_unpack_pack:
  "n < 2 ^ 64 \<Longrightarrow> struct_pack_Q n = Inr (le_bytes 8 n) \<and> struct_unpack_Q (le_bytes 8 n) = Inr n"
proof -
  assume n: "n < 2 ^ 64"
  have "(256::nat) ^ 8 = 2 ^ 64" by simp
  with n have "n mod 256 ^ 8 = n" by simp
  then show ?thesis
    using n by (simp add: struct_pack_Q_def struct_unpack_Q_def length_le_bytes le_value_le_bytes)
qed

section \<open>Files, frames and the two loops\<close>

declare read_loop.simps [simp del]

lemma file_read_eq:
  "file_read f n = (take n (remaining f), f\<lparr>pos := pos f + min n (length (remaining f))\<rparr>)"
  by (simp add: file_read_def remaining_def Let_def min.commute)

lemma remaining_advance: "remaining (f\<lparr>pos := pos f + k\<rparr>) = drop k (remaining f)"
  by (simp add: remaining_def add.commute)

lemma read_file_unfold:
  "read_file P f =
     (case read_record f of
        (Inl e, f1) \<Rightarrow> Inl e
      | (Inr None, f1) \<Rightarrow> Inr ([], f1)
      | (Inr (Some payload), f1) \<Rightarrow>
          (case P payload of
             Inl e \<Rightarrow> Inl e
           | Inr proto \<Rightarrow>
               (case read_file P f1 of
                  Inl e \<Rightarrow> Inl e
                | Inr (protos, f2) \<Rightarrow> Inr (proto # protos, f2))))"
proof -
  obtain len f1 where r: "file_read f 8 = (len, f1)"
    by (cases "file_read f 8")
  show ?thesis
    by (simp add: read_file_def read_record_def r read_loop.simps [of P len f1]
          split: prod.splits sum.splits)
qed

lemma read_protos_unfold:
  "read_protos f =
     (case read_record f of
        (Inl e, f1) \<Rightarrow> Inl e
      | (Inr None, f1) \<Rightarrow> Inr ([], f1)
      | (Inr (Some proto), f1) \<Rightarrow>
          (case read_protos f1 of
             Inl e \<Rightarrow> Inl e
           | Inr (protos, f2) \<Rightarrow> Inr (proto # protos, f2)))"
  unfolding read_protos_def
  by (subst read_file_unfold) (simp split: prod.splits sum.splits option.splits)

lemma read_record_eof: "remaining f = [] \<Longrightarrow> read_record f = (Inr None, f)"
  by (simp add: read_record_def file_read_eq)

lemma read_record_short:
  "remaining f \<noteq> [] \<Longrightarrow> length (remaining f) < 8 \<Longrightarrow>
   read_record f = (Inl StructError, f\<lparr>pos := pos f + length (remaining f)\<rparr>)"
  by (simp add: read_record_def file_read_eq struct_unpack_Q_def)

lemma le_bytes_8_not_Nil: "le_bytes 8 n \<noteq> []"
  using length_le_bytes [of 8 n] by auto

lemma read_record_frame:
  assumes "remaining f = le_bytes 8 n @ rest" and "n < 2 ^ 64"
  shows "read_record f = (Inr (Some (take n rest)), f\<lparr>pos := pos f + (8 + min n (length rest))\<rparr>)"
  using assms struct_unpack_pack [of n]
  by (simp add: read_record_def file_read_eq length_le_bytes remaining_advance add.assoc
        le_bytes_8_not_Nil)

lemma wire_frames_Nil: "wire_frames [] = []"
  by (simp add: wire_frames_def)

lemma wire_frames_Cons: "wire_frames (r # rs) = le_bytes 8 (length r) @ r @ wire_frames rs"
  by (simp add: wire_frames_def wire_frame_def)

lemma wire_frames_append: "wire_frames (rs @ rs') = wire_frames rs @ wire_frames rs'"
  by (simp add: wire_frames_def)

lemma read_protos_prefix:
  assumes "\<forall>r\<in>set pre. length r < 2 ^ 64"
    and "remaining f = wire_frames pre @ rest"
  shows "read_protos f =
           (case read_protos (f\<lparr>pos := pos f + length (wire_frames pre)\<rparr>) of
              Inl e \<Rightarrow> Inl e
            | Inr (protos, f') \<Rightarrow> Inr (pre @ protos, f'))"
  using assms
proof (induction pre arbitrary: f)
  case Nil
  show ?case by (simp add: wire_frames_Nil split: sum.splits)
next
  case (Cons r pre)
  let ?g = "f\<lparr>pos := pos f + (8 + length r)\<rparr>"
  from Cons.prems have len: "length r < 2 ^ 64" and pre: "\<forall>r\<in>set pre. length r < 2 ^ 64"
    by simp_all
  from Cons.prems(2)
  have rem: "remaining f = le_bytes 8 (length r) @ (r @ wire_frames pre @ rest)"
    by (simp add: wire_frames_Cons)
  have step: "read_record f = (Inr (Some r), ?g)"
    using read_record_frame [OF rem len] by simp
  have "remaining ?g = wire_frames pre @ rest"
    by (simp add: remaining_advance rem length_le_bytes)
  from Cons.IH [OF pre this]
  have "read_protos ?g =
          (case read_protos (f\<lparr>pos := pos f + length (wire_frames (r # pre))\<rparr>) of
             Inl e \<Rightarrow> Inl e
           | Inr (protos, f') \<Rightarrow> Inr (pre @ protos, f'))"
    by (simp add: wire_frames_Cons length_le_bytes add.assoc)
  then show ?case
    by (subst read_protos_unfold) (simp add: step split: sum.splits)
qed

lemma read_protos_eof: "remaining f = [] \<Longrightarrow> read_protos f = Inr ([], f)"
  by (subst read_protos_unfold) (simp add: read_record_eof)

lemma read_protos_wire_frames:
  assumes "\<forall>r\<in>set rs. length r < 2 ^ 64"
    and "remaining f = wire_frames rs"
  shows "read_protos f = Inr (rs, f\<lparr>pos := pos f + length (wire_frames rs)\<rparr>)"
proof -
  have "remaining (f\<lparr>pos := pos f + length (wire_frames rs)\<rparr>) = []"
    by (simp add: remaining_advance assms(2))
  then show ?thesis
    using read_protos_prefix [OF assms(1), of f "[]"] assms(2)
    by (simp add: read_protos_eof)
qed

lemma file_write_at_end:
  "pos f = length (contents f) \<Longrightarrow>
   file_write f bs = \<lparr>contents = contents f @ bs, pos = length (contents f) + length bs\<rparr>"
  by (simp add: file_write_def)

lemma write_frame_at_end:
  "pos f = length (contents f) \<Longrightarrow> length p < 2 ^ 64 \<Longrightarrow>
   write_frame f p =
     Inr \<lparr>contents = contents f @ wire_frame p, pos = length (contents f) + length (wire_frame p)\<rparr>"
  by (simp add: write_frame_def struct_pack_Q_def file_write_at_end wire_frame_def)

lemma write_protos_at_end:
  "pos f = length (contents f) \<Longrightarrow> \<forall>r\<in>set rs. length r < 2 ^ 64 \<Longrightarrow>
   write_protos f rs =
     Inr \<lparr>contents = contents f @ wire_frames rs, pos = length (contents f) + length (wire_frames rs)\<rparr>"
proof (induction rs arbitrary: f)
  case Nil
  then show ?case by (simp add: wire_frames_Nil)
next
  case (Cons r rs)
  then show ?case
    by (simp add: write_frame_at_end wire_frames_Cons wire_frame_def)
qed

lemma read_metadata_frame:
  assumes "remaining f = le_bytes 8 n @ rest" and "n < 2 ^ 64"
  shows "read_metadata f = Inr (take n rest, f\<lparr>pos := pos f + (8 + min n (length rest))\<rparr>)"
  using assms struct_unpack_pack [of n]
  by (simp add: read_metadata_def file_read_eq length_le_bytes remaining_advance add.assoc)

lemma remaining_open_rb: "remaining (open_rb bs) = bs"
  by (simp add: remaining_def open_rb_def)

lemma write_container_open_wb:
  assumes "\<forall>r\<in>set rs. length r < 2 ^ 64" and "\<forall>mb\<in>set_option m. length mb < 2 ^ 64"
  shows "write_container open_wb m rs =
           Inr \<lparr>contents = wire_frames (case m of None \<Rightarrow> rs | Some mb \<Rightarrow> mb # rs),
                pos = length (wire_frames (case m of None \<Rightarrow> rs | Some mb \<Rightarrow> mb # rs))\<rparr>"
proof (cases m)
  case None
  with assms(1) show ?thesis
    using write_protos_at_end [of open_wb rs]
    by (simp add: write_container_def open_wb_def)
next
  case (Some mb)
  with assms have "\<forall>r\<in>set (mb # rs). length r < 2 ^ 64" by simp
  then show ?thesis
    using write_protos_at_end [of open_wb "mb # rs"] Some
    by (simp add: write_container_def open_wb_def split: sum.splits)
qed

lemma le_bytes_8:
  "le_bytes 8 n = [of_nat (n mod 256), of_nat (n div 256 mod 256),
     of_nat (n div 256 div 256 mod 256), of_nat (n div 256 div 256 div 256 mod 256),
     of_nat (n div 256 div 256 div 256 div 256 mod 256),
     of_nat (n div 256 div 256 div 256 div 256 div 256 mod 256),
     of_nat (n div 256 div 256 div 256 div 256 div 256 div 256 mod 256),
     of_nat (n div 256 div 256 div 256 div 256 div 256 div 256 div 256 mod 256)]"
proof -
  have "(8::nat) = Suc (Suc (Suc (Suc (Suc (Suc (Suc (Suc 0)))))))" by simp
  then show ?thesis by (simp only: le_bytes.simps)
qed

lemma open_rb_advance_all:
  "(open_rb bs)\<lparr>pos := pos (open_rb bs) + length bs\<rparr> = \<lparr>contents = bs, pos = length bs\<rparr>"
  by (simp add: open_rb_def)

lemma read_container_no_metadata:
  assumes "\<forall>r\<in>set rs. length r < 2 ^ 64"
  shows "read_container False (open_rb (wire_frames rs)) =
           Inr (None, rs, \<lparr>contents = wire_frames rs, pos = length (wire_frames rs)\<rparr>)"
proof -
  let ?src = "open_rb (wire_frames rs)"
  have "read_protos ?src = Inr (rs, ?src\<lparr>pos := pos ?src + length (wire_frames rs)\<rparr>)"
    by (rule read_protos_wire_frames [OF assms]) (simp add: remaining_open_rb)
  then show ?thesis
    by (simp add: read_container_def open_rb_advance_all)
qed

lemma read_container_metadata:
  assumes "\<forall>r\<in>set rs. length r < 2 ^ 64" and mb: "length mb < 2 ^ 64"
  shows "read_container True (open_rb (wire_frames (mb # rs))) =
           Inr (Some mb, rs,
                \<lparr>contents = wire_frames (mb # rs), pos = length (wire_frames (mb # rs))\<rparr>)"
proof -
  let ?src = "open_rb (wire_frames (mb # rs))"
  let ?mid = "?src\<lparr>pos := pos ?src + (8 + length mb)\<rparr>"
  have "remaining ?src = le_bytes 8 (length mb) @ (mb @ wire_frames rs)"
    by (simp add: remaining_open_rb wire_frames_Cons)
  from read_metadata_frame [OF this mb]
  have meta: "read_metadata ?src = Inr (mb, ?mid)" by simp
  have "remaining ?mid = wire_frames rs"
    by (simp add: remaining_advance remaining_open_rb wire_frames_Cons length_le_bytes)
  from read_protos_wire_frames [OF assms(1) this]
  have "read_protos ?mid = Inr (rs, ?mid\<lparr>pos := pos ?mid + length (wire_frames rs)\<rparr>)" .
  with meta show ?thesis
    by (simp add: read_container_def open_rb_def wire_frames_Cons length_le_bytes)
qed

section \<open>Round trip\<close>

text \<open>
  C1: for every sequence of records \<open>rs\<close> (the empty one too) and every optional
  metadata \<open>m\<close>, each no longer than an unsigned long long can count: writing \<open>m\<close>, if
  present, and then \<open>rs\<close> into a new file succeeds, and reading that file from its start,
  with \<open>expect_metadata\<close> true exactly when \<open>m\<close> is present, gives back \<open>m\<close> and \<open>rs\<close>,
  in the same order and byte for byte, and leaves the file at its end.
\<close>

theorem C1_round_trip:
  assumes "\<forall>r\<in>set rs. length r < 2 ^ 64" and "\<forall>mb\<in>set_option m. length mb < 2 ^ 64"
  shows "\<exists>f. write_container open_wb m rs = Inr f
            \<and> (\<exists>f'. read_container (m \<noteq> None) (open_rb (contents f)) = Inr (m, rs, f')
                    \<and> remaining f' = [])"
proof (cases m)
  case None
  then show ?thesis
    using write_container_open_wb [OF assms] read_container_no_metadata [OF assms(1)]
    by (simp add: remaining_def)
next
  case (Some mb)
  with assms(2) have "length mb < 2 ^ 64" by simp
  from read_container_metadata [OF assms(1) this] show ?thesis
    using write_container_open_wb [OF assms] Some
    by (simp add: remaining_def)
qed

theorem C1_round_trip_witness:
  "length [0x41 :: byte] < 2 ^ 64 \<and> length ([] :: bytes) < 2 ^ 64 \<and> length [0x6D :: byte] < 2 ^ 64
   \<and> (\<exists>f. write_container open_wb (Some [0x6D]) [[0x41], []] = Inr f
            \<and> (\<exists>f'. read_container True (open_rb (contents f))
                        = Inr (Some [0x6D], [[0x41], []], f')
                    \<and> remaining f' = []))"
proof -
  have h1: "\<forall>r\<in>set [[0x41 :: byte], []]. length r < 2 ^ 64" by simp
  have h2: "\<forall>mb\<in>set_option (Some [0x6D :: byte]). length mb < 2 ^ 64" by simp
  from C1_round_trip [OF h1 h2] show ?thesis by simp
qed

section \<open>The concrete scenario\<close>

text \<open>
  C3: writing the metadata \<open>meta\<close> and then the records \<open>AAA\<close>, the empty record and
  \<open>CCCCCC\<close> into a new file gives exactly the 45 bytes
  \<open>04 00 00 00 00 00 00 00 'meta' 03 00 00 00 00 00 00 00 'AAA' 00 00 00 00 00 00 00 00
  06 00 00 00 00 00 00 00 'CCCCCC'\<close>, every length being 8 bytes, little-endian; reading
  these bytes with \<open>expect_metadata\<close> true gives the metadata \<open>meta\<close>, then the records
  \<open>AAA\<close>, the empty record and \<open>CCCCCC\<close>, and the next \<open>read_record\<close> is at the end of
  the stream. (\<open>m e t a\<close> are the bytes 6D 65 74 61, \<open>A\<close> is 41 and \<open>C\<close> is 43.)
\<close>

theorem C3_concrete_scenario:
  "write_container open_wb (Some [0x6D, 0x65, 0x74, 0x61])
       [[0x41, 0x41, 0x41], [], [0x43, 0x43, 0x43, 0x43, 0x43, 0x43]]
     = Inr \<lparr>contents =
         [4, 0, 0, 0, 0, 0, 0, 0, 0x6D, 0x65, 0x74, 0x61,
          3, 0, 0, 0, 0, 0, 0, 0, 0x41, 0x41, 0x41,
          0, 0, 0, 0, 0, 0, 0, 0,
          6, 0, 0, 0, 0, 0, 0, 0, 0x43, 0x43, 0x43, 0x43, 0x43, 0x43], pos = 45\<rparr>
   \<and> read_container True (open_rb
         [4, 0, 0, 0, 0, 0, 0, 0, 0x6D, 0x65, 0x74, 0x61,
          3, 0, 0, 0, 0, 0, 0, 0, 0x41, 0x41, 0x41,
          0, 0, 0, 0, 0, 0, 0, 0,
          6, 0, 0, 0, 0, 0, 0, 0, 0x43, 0x43, 0x43, 0x43, 0x43, 0x43])
     = Inr (Some [0x6D, 0x65, 0x74, 0x61],
            [[0x41, 0x41, 0x41], [], [0x43, 0x43, 0x43, 0x43, 0x43, 0x43]],
            \<lparr>contents =
         [4, 0, 0, 0, 0, 0, 0, 0, 0x6D, 0x65, 0x74, 0x61,
          3, 0, 0, 0, 0, 0, 0, 0, 0x41, 0x41, 0x41,
          0, 0, 0, 0, 0, 0, 0, 0,
          6, 0, 0, 0, 0, 0, 0, 0, 0x43, 0x43, 0x43, 0x43, 0x43, 0x43], pos = 45\<rparr>)
   \<and> read_record \<lparr>contents =
         [4, 0, 0, 0, 0, 0, 0, 0, 0x6D, 0x65, 0x74, 0x61,
          3, 0, 0, 0, 0, 0, 0, 0, 0x41, 0x41, 0x41,
          0, 0, 0, 0, 0, 0, 0, 0,
          6, 0, 0, 0, 0, 0, 0, 0, 0x43, 0x43, 0x43, 0x43, 0x43, 0x43], pos = 45\<rparr>
     = (Inr None, \<lparr>contents =
         [4, 0, 0, 0, 0, 0, 0, 0, 0x6D, 0x65, 0x74, 0x61,
          3, 0, 0, 0, 0, 0, 0, 0, 0x41, 0x41, 0x41,
          0, 0, 0, 0, 0, 0, 0, 0,
          6, 0, 0, 0, 0, 0, 0, 0, 0x43, 0x43, 0x43, 0x43, 0x43, 0x43], pos = 45\<rparr>)"
  (is "?w \<and> ?r \<and> ?e")
proof -
  let ?rs = "[[0x41, 0x41, 0x41], [], [0x43, 0x43, 0x43, 0x43, 0x43, 0x43 :: byte]]"
  let ?m = "[0x6D, 0x65, 0x74, 0x61 :: byte]"
  have wf: "wire_frames (?m # ?rs) =
         [4, 0, 0, 0, 0, 0, 0, 0, 0x6D, 0x65, 0x74, 0x61,
          3, 0, 0, 0, 0, 0, 0, 0, 0x41, 0x41, 0x41,
          0, 0, 0, 0, 0, 0, 0, 0,
          6, 0, 0, 0, 0, 0, 0, 0, 0x43, 0x43, 0x43, 0x43, 0x43, 0x43]"
    by (simp add: wire_frames_def wire_frame_def le_bytes_8)
  have rs: "\<forall>r\<in>set ?rs. length r < 2 ^ 64" by simp
  have m: "length ?m < 2 ^ 64" by simp
  have ?w
    using write_container_open_wb [of ?rs "Some ?m"] by (simp add: wf)
  moreover have ?r
    using read_container_metadata [OF rs m] by (simp add: wf)
  moreover have ?e
    by (rule read_record_eof) (simp add: remaining_def)
  ultimately show ?thesis by blast
qed

section \<open>End of the stream\<close>

lemma read_record_None_iff: "fst (read_record f) = Inr None \<longleftrightarrow> remaining f = []"
  by (auto simp: read_record_def file_read_eq split: sum.splits)

lemma le_bytes_0: "le_bytes k 0 = replicate k 0"
  by (induction k) simp_all

text \<open>
  C5: on a file with no bytes left where a length would begin, \<open>read_record\<close> returns
  the end-of-stream value and leaves the file as it is, and so does every further call:
  any number of calls in a row return the end-of-stream value, none an error.
\<close>

theorem C5_clean_eof_idempotent:
  assumes "remaining f = []"
  shows "read_record f = (Inr None, f) \<and> (\<forall>n. read_records n f = (replicate n (Inr None), f))"
proof
  show first: "read_record f = (Inr None, f)"
    by (rule read_record_eof [OF assms])
  show "\<forall>n. read_records n f = (replicate n (Inr None), f)"
  proof
    fix n
    show "read_records n f = (replicate n (Inr None), f)"
      by (induction n) (simp_all add: first)
  qed
qed

theorem C5_clean_eof_idempotent_witness:
  "remaining \<lparr>contents = [1, 0, 0, 0, 0, 0, 0, 0, 0x41], pos = 9\<rparr> = []
   \<and> read_record \<lparr>contents = [1, 0, 0, 0, 0, 0, 0, 0, 0x41], pos = 9\<rparr>
       = (Inr None, \<lparr>contents = [1, 0, 0, 0, 0, 0, 0, 0, 0x41], pos = 9\<rparr>)
   \<and> (\<forall>n. read_records n \<lparr>contents = [1, 0, 0, 0, 0, 0, 0, 0, 0x41], pos = 9\<rparr>
       = (replicate n (Inr None), \<lparr>contents = [1, 0, 0, 0, 0, 0, 0, 0, 0x41], pos = 9\<rparr>))"
proof -
  have h: "remaining \<lparr>contents = [1, 0, 0, 0, 0, 0, 0, 0, 0x41], pos = 9\<rparr> = []"
    by (simp add: remaining_def)
  show ?thesis
    by (rule conjI [OF h C5_clean_eof_idempotent [OF h]])
qed

text \<open>
  C9: \<open>read_record\<close> reports the end of the stream exactly when no byte is left where
  a length would begin. The frame written for an empty record is 8 zero bytes; read
  back, it is an empty record, not the end of the stream, and the file is then at the
  next frame. So records around an empty record, each no longer than an unsigned long
  long can count, are all read back, the empty one in its place.
\<close>

theorem C9_empty_record_is_not_eof:
  "(fst (read_record f) = Inr None \<longleftrightarrow> remaining f = [])
   \<and> write_protos open_wb [[]] = Inr \<lparr>contents = replicate 8 0, pos = 8\<rparr>
   \<and> (remaining f = replicate 8 0 @ rest \<longrightarrow>
        read_record f = (Inr (Some []), f\<lparr>pos := pos f + 8\<rparr>)
        \<and> remaining (f\<lparr>pos := pos f + 8\<rparr>) = rest)
   \<and> ((\<forall>r\<in>set (rs1 @ rs2). length r < 2 ^ 64) \<longrightarrow>
        (\<exists>g g'. write_protos open_wb (rs1 @ [] # rs2) = Inr g
               \<and> read_protos (open_rb (contents g)) = Inr (rs1 @ [] # rs2, g')))"
  (is "?eof \<and> ?wr \<and> ?step \<and> ?loop")
proof -
  have ?eof by (rule read_record_None_iff)
  moreover have ?wr
    using write_protos_at_end [of open_wb "[[]]"]
    by (simp add: open_wb_def wire_frames_def wire_frame_def le_bytes_0)
  moreover have ?step
  proof
    assume "remaining f = replicate 8 0 @ rest"
    then have rem: "remaining f = le_bytes 8 0 @ rest"
      by (simp only: le_bytes_0)
    from read_record_frame [OF rem]
    show "read_record f = (Inr (Some []), f\<lparr>pos := pos f + 8\<rparr>)
          \<and> remaining (f\<lparr>pos := pos f + 8\<rparr>) = rest"
      by (simp add: remaining_advance rem length_le_bytes)
  qed
  moreover have ?loop
  proof
    assume "\<forall>r\<in>set (rs1 @ rs2). length r < 2 ^ 64"
    then have all: "\<forall>r\<in>set (rs1 @ [] # rs2). length r < 2 ^ 64" by auto
    let ?c = "wire_frames (rs1 @ [] # rs2)"
    have "write_protos open_wb (rs1 @ [] # rs2) = Inr \<lparr>contents = ?c, pos = length ?c\<rparr>"
      using write_protos_at_end [of open_wb "rs1 @ [] # rs2"] all
      by (simp add: open_wb_def)
    moreover have "read_protos (open_rb ?c)
        = Inr (rs1 @ [] # rs2, (open_rb ?c)\<lparr>pos := pos (open_rb ?c) + length ?c\<rparr>)"
      by (rule read_protos_wire_frames [OF all]) (simp add: remaining_open_rb)
    ultimately show "\<exists>g g'. write_protos open_wb (rs1 @ [] # rs2) = Inr g
               \<and> read_protos (open_rb (contents g)) = Inr (rs1 @ [] # rs2, g')"
      by simp
  qed
  ultimately show ?thesis by blast
qed

theorem C9_empty_record_is_not_eof_witness:
  "remaining (open_rb (replicate 8 0 @ [1, 0, 0, 0, 0, 0, 0, 0, 0x41]))
     = replicate 8 0 @ [1, 0, 0, 0, 0, 0, 0, 0, 0x41]
   \<and> length [0x42 :: byte] < 2 ^ 64 \<and> length [0x41 :: byte] < 2 ^ 64
   \<and> read_record (open_rb (replicate 8 0 @ [1, 0, 0, 0, 0, 0, 0, 0, 0x41]))
       = (Inr (Some []), (open_rb (replicate 8 0 @ [1, 0, 0, 0, 0, 0, 0, 0, 0x41]))
                           \<lparr>pos := pos (open_rb (replicate 8 0 @ [1, 0, 0, 0, 0, 0, 0, 0, 0x41])) + 8\<rparr>)
   \<and> (\<exists>g g'. write_protos open_wb ([[0x42]] @ [] # [[0x41]]) = Inr g
              \<and> read_protos (open_rb (contents g)) = Inr ([[0x42]] @ [] # [[0x41]], g'))"
proof -
  have h1: "remaining (open_rb (replicate 8 0 @ [1, 0, 0, 0, 0, 0, 0, 0, 0x41]))
     = replicate 8 0 @ [1, 0, 0, 0, 0, 0, 0, 0, 0x41]"
    by (rule remaining_open_rb)
  have h2: "\<forall>r\<in>set ([[0x42 :: byte]] @ [[0x41]]). length r < 2 ^ 64"
    by simp
  have h3: "length [0x42 :: byte] < 2 ^ 64 \<and> length [0x41 :: byte] < 2 ^ 64"
    by simp
  from h1 h2 h3
    C9_empty_record_is_not_eof [of "open_rb (replicate 8 0 @ [1, 0, 0, 0, 0, 0, 0, 0, 0x41])"
      "[1, 0, 0, 0, 0, 0, 0, 0, 0x41]" "[[0x42]]" "[[0x41]]"]
  show ?thesis by blast
qed

section \<open>Metadata frames and record frames\<close>

lemma write_container_as_records:
  "write_container f metadata rs =
     write_protos f (case metadata of None \<Rightarrow> rs | Some m \<Rightarrow> m # rs)"
  by (simp add: write_container_def split: option.splits)

text \<open>
  C8: a metadata frame and a record frame are the same bytes: writing the metadata \<open>m\<close>
  and then the records \<open>rs\<close> into a file is writing no metadata and the records
  \<open>m, rs\<close>. So, when no length exceeds an unsigned long long, a reader that expects no
  metadata reads the file of \<open>m\<close> and \<open>rs\<close> as the records \<open>m, rs\<close>, and its first
  \<open>read_record\<close> returns \<open>m\<close>.
\<close>

theorem C8_metadata_frame_is_record_frame:
  "write_container f (Some m) rs = write_container f None (m # rs)
   \<and> (length m < 2 ^ 64 \<and> (\<forall>r\<in>set rs. length r < 2 ^ 64) \<longrightarrow>
        (\<exists>g g'. write_container open_wb (Some m) rs = Inr g
               \<and> read_container False (open_rb (contents g)) = Inr (None, m # rs, g')
               \<and> fst (read_record (open_rb (contents g))) = Inr (Some m)))"
proof
  show "write_container f (Some m) rs = write_container f None (m # rs)"
    by (simp add: write_container_as_records)
  show "length m < 2 ^ 64 \<and> (\<forall>r\<in>set rs. length r < 2 ^ 64) \<longrightarrow>
        (\<exists>g g'. write_container open_wb (Some m) rs = Inr g
               \<and> read_container False (open_rb (contents g)) = Inr (None, m # rs, g')
               \<and> fst (read_record (open_rb (contents g))) = Inr (Some m))"
  proof
    assume a: "length m < 2 ^ 64 \<and> (\<forall>r\<in>set rs. length r < 2 ^ 64)"
    then have all: "\<forall>r\<in>set (m # rs). length r < 2 ^ 64" by simp
    let ?c = "wire_frames (m # rs)"
    have w: "write_container open_wb (Some m) rs = Inr \<lparr>contents = ?c, pos = length ?c\<rparr>"
      using write_container_open_wb [of rs "Some m"] a by simp
    have r: "read_container False (open_rb ?c) = Inr (None, m # rs, \<lparr>contents = ?c, pos = length ?c\<rparr>)"
      by (rule read_container_no_metadata [OF all])
    have "remaining (open_rb ?c) = le_bytes 8 (length m) @ (m @ wire_frames rs)"
      by (simp add: remaining_open_rb wire_frames_Cons)
    from read_record_frame [OF this] a
    have "fst (read_record (open_rb ?c)) = Inr (Some m)" by simp
    with w r show "\<exists>g g'. write_container open_wb (Some m) rs = Inr g
               \<and> read_container False (open_rb (contents g)) = Inr (None, m # rs, g')
               \<and> fst (read_record (open_rb (contents g))) = Inr (Some m)"
      by simp
  qed
qed

theorem C8_metadata_frame_is_record_frame_witness:
  "length [0x6D :: byte] < 2 ^ 64 \<and> length [0x41 :: byte] < 2 ^ 64
   \<and> write_container open_wb (Some [0x6D]) [[0x41]] = write_container open_wb None [[0x6D], [0x41]]
   \<and> (\<exists>g g'. write_container open_wb (Some [0x6D]) [[0x41]] = Inr g
          \<and> read_container False (open_rb (contents g)) = Inr (None, [[0x6D], [0x41]], g')
          \<and> fst (read_record (open_rb (contents g))) = Inr (Some [0x6D]))"
proof -
  have h: "length [0x6D :: byte] < 2 ^ 64 \<and> (\<forall>r\<in>set [[0x41 :: byte]]. length r < 2 ^ 64)"
    by simp
  have h': "length [0x6D :: byte] < 2 ^ 64 \<and> length [0x41 :: byte] < 2 ^ 64"
    by simp
  from h h' C8_metadata_frame_is_record_frame [of open_wb "[0x6D]" "[[0x41]]"]
  show ?thesis by blast
qed

section \<open>Truncated files\<close>

lemma read_file_eof: "remaining f = [] \<Longrightarrow> read_file P f = Inr ([], f)"
  by (subst read_file_unfold) (simp add: read_record_eof)

lemma read_file_cut_in_length:
  assumes "remaining f \<noteq> []" and "length (remaining f) < 8"
  shows "read_file P f = Inl StructError"
  by (subst read_file_unfold) (simp add: read_record_short [OF assms])

lemma read_protos_cut_in_length:
  assumes "remaining f \<noteq> []" and "length (remaining f) < 8"
  shows "read_protos f = Inl StructError"
  unfolding read_protos_def by (rule read_file_cut_in_length [OF assms])

lemma read_file_cut_in_payload:
  assumes rem: "remaining f = le_bytes 8 n @ part" and n: "n < 2 ^ 64" and part: "length part \<le> n"
  shows "read_file P f =
           (case P part of
              Inl e \<Rightarrow> Inl e
            | Inr proto \<Rightarrow> Inr ([proto], f\<lparr>pos := pos f + (8 + length part)\<rparr>))"
proof -
  let ?g = "f\<lparr>pos := pos f + (8 + length part)\<rparr>"
  have step: "read_record f = (Inr (Some part), ?g)"
    using read_record_frame [OF rem n] part by (simp add: min_absorb2)
  have "remaining ?g = []"
    by (simp add: remaining_advance rem length_le_bytes)
  then have "read_file P ?g = Inr ([], ?g)"
    by (rule read_file_eof)
  then show ?thesis
    by (subst read_file_unfold) (simp add: step split: sum.splits)
qed

lemma read_file_prefix:
  assumes "\<forall>p\<in>set pre. length p < 2 ^ 64"
    and "\<forall>p\<in>set pre. P p = Inr (message p)"
    and "remaining f = wire_frames pre @ rest"
  shows "read_file P f =
           (case read_file P (f\<lparr>pos := pos f + length (wire_frames pre)\<rparr>) of
              Inl e \<Rightarrow> Inl e
            | Inr (protos, f') \<Rightarrow> Inr (map message pre @ protos, f'))"
  using assms
proof (induction pre arbitrary: f)
  case Nil
  show ?case by (simp add: wire_frames_Nil split: sum.splits)
next
  case (Cons r pre)
  let ?g = "f\<lparr>pos := pos f + (8 + length r)\<rparr>"
  from Cons.prems have len: "length r < 2 ^ 64" and pre: "\<forall>p\<in>set pre. length p < 2 ^ 64"
    and r: "P r = Inr (message r)" and parse: "\<forall>p\<in>set pre. P p = Inr (message p)"
    by simp_all
  from Cons.prems(3)
  have rem: "remaining f = le_bytes 8 (length r) @ (r @ wire_frames pre @ rest)"
    by (simp add: wire_frames_Cons)
  have step: "read_record f = (Inr (Some r), ?g)"
    using read_record_frame [OF rem len] by simp
  have "remaining ?g = wire_frames pre @ rest"
    by (simp add: remaining_advance rem length_le_bytes)
  from Cons.IH [OF pre parse this]
  have "read_file P ?g =
          (case read_file P (f\<lparr>pos := pos f + length (wire_frames (r # pre))\<rparr>) of
             Inl e \<Rightarrow> Inl e
           | Inr (protos, f') \<Rightarrow> Inr (map message pre @ protos, f'))"
    by (simp add: wire_frames_Cons length_le_bytes add.assoc)
  then show ?case
    by (subst read_file_unfold) (simp add: step r split: sum.splits)
qed

lemma take_wire_frames:
  assumes "off \<le> 8 + length r"
  shows "take (length (wire_frames pre) + off) (wire_frames (pre @ r # post))
           = wire_frames pre @ take off (le_bytes 8 (length r) @ r)"
  using assms by (simp add: wire_frames_append wire_frames_Cons length_le_bytes)

lemma read_file_truncated:
  assumes pre: "\<forall>p\<in>set pre. length p < 2 ^ 64" and r: "length r < 2 ^ 64"
    and parse: "\<forall>p\<in>set pre. P p = Inr (message p)"
    and off: "0 < off" "off < 8 + length r"
    and f: "remaining f = take (length (wire_frames pre) + off) (wire_frames (pre @ r # post))"
  shows "read_file P f
           = (if off < 8 then Inl StructError
              else (case P (take (off - 8) r) of
                      Inl e \<Rightarrow> Inl e
                    | Inr proto \<Rightarrow>
                        Inr (map message pre @ [proto],
                             f\<lparr>pos := pos f + (length (wire_frames pre) + off)\<rparr>)))"
proof -
  let ?cut = "take off (le_bytes 8 (length r) @ r)"
  let ?mid = "f\<lparr>pos := pos f + length (wire_frames pre)\<rparr>"
  have "remaining f = wire_frames pre @ ?cut"
    using off f by (simp add: take_wire_frames)
  note rem = this
  from read_file_prefix [OF pre parse rem]
  have split: "read_file P f =
      (case read_file P ?mid of Inl e \<Rightarrow> Inl e | Inr (protos, f') \<Rightarrow> Inr (map message pre @ protos, f'))" .
  have mid: "remaining ?mid = ?cut"
    by (simp add: remaining_advance rem)
  show ?thesis
  proof (cases "off < 8")
    case True
    with off have "remaining ?mid \<noteq> []" and "length (remaining ?mid) < 8"
      by (auto simp: mid length_le_bytes dest: arg_cong [where f = length])
    from read_file_cut_in_length [OF this, of P] True show ?thesis
      by (simp add: split)
  next
    case False
    then have "remaining ?mid = le_bytes 8 (length r) @ take (off - 8) r"
      by (simp add: mid length_le_bytes)
    from read_file_cut_in_payload [OF this r, of P] False off
    have "read_file P ?mid =
        (case P (take (off - 8) r) of
           Inl e \<Rightarrow> Inl e
         | Inr proto \<Rightarrow> Inr ([proto], ?mid\<lparr>pos := pos ?mid + (8 + length (take (off - 8) r))\<rparr>))"
      by simp
    moreover have "?mid\<lparr>pos := pos ?mid + (8 + length (take (off - 8) r))\<rparr>
        = f\<lparr>pos := pos f + (length (wire_frames pre) + off)\<rparr>"
      using False off by (simp add: min_absorb2)
    ultimately show ?thesis
      using False by (simp add: split split: sum.splits)
  qed
qed

text \<open>
  C2, as stated, fails: the file of the single record \<open>0A 03 01 02 03\<close> is 13 bytes
  long, its only frame boundaries are 0 and 13, and cut to its first 8 bytes it is read
  without any error: \<^verbatim>\<open>read(5)\<close> returns no byte at all, the empty byte string is
  parsed as a message, and the loop ends at the end of the file with that one record.
\<close>

theorem C2_counterexample:
  "write_protos open_wb [[0x0A, 3, 1, 2, 3]]
     = Inr \<lparr>contents = [5, 0, 0, 0, 0, 0, 0, 0, 0x0A, 3, 1, 2, 3], pos = 13\<rparr>
   \<and> take 8 [5, 0, 0, 0, 0, 0, 0, 0, 0x0A, 3, 1, 2, 3 :: byte] = [5, 0, 0, 0, 0, 0, 0, 0]
   \<and> read_file sample_ParseFromString (open_rb [5, 0, 0, 0, 0, 0, 0, 0])
     = Inr ([[]], \<lparr>contents = [5, 0, 0, 0, 0, 0, 0, 0], pos = 8\<rparr>)"
proof -
  have "write_protos open_wb [[0x0A, 3, 1, 2, 3]]
     = Inr \<lparr>contents = [5, 0, 0, 0, 0, 0, 0, 0, 0x0A, 3, 1, 2, 3], pos = 13\<rparr>"
    using write_protos_at_end [of open_wb "[[0x0A, 3, 1, 2, 3]]"]
    by (simp add: open_wb_def wire_frames_def wire_frame_def le_bytes_8)
  moreover have "remaining (open_rb [5, 0, 0, 0, 0, 0, 0, 0]) = le_bytes 8 5 @ []"
    by (simp add: remaining_open_rb le_bytes_8)
  from read_file_cut_in_payload [OF this, of sample_ParseFromString]
  have "read_file sample_ParseFromString (open_rb [5, 0, 0, 0, 0, 0, 0, 0])
     = Inr ([[]], \<lparr>contents = [5, 0, 0, 0, 0, 0, 0, 0], pos = 8\<rparr>)"
    by (simp add: open_rb_def sample_ParseFromString_def)
  ultimately show ?thesis by simp
qed

text \<open>
  C2, amended: take the file written from records that are each no longer than an
  unsigned long long can count, cut it \<open>off\<close> bytes into the frame of one of them,
  \<open>r\<close>, with \<open>0 < off < 8 + len r\<close>, and let the read loop start at a frame boundary,
  the records before \<open>r\<close> being serialisations that the parser accepts. When fewer than
  8 bytes of the frame are left (1 to 7 bytes where a length begins) the reader fails
  with \<open>struct.error\<close>. When the whole length is left, the framing detects nothing:
  the \<open>off - 8\<close> bytes that are left of \<open>r\<close>, fewer than \<open>r\<close> has, are handed to
  \<^verbatim>\<open>ParseFromString\<close>, and the outcome is the parser's. If it rejects them the reader
  fails with the parser's error; if it accepts them the reader returns the records
  before \<open>r\<close> and then the message parsed from the cut payload as the last record, and
  stops at the end of the file.
\<close>

theorem C2_truncation_amended:
  assumes "\<forall>p\<in>set (pre @ r # post). length p < 2 ^ 64"
    and "\<forall>p\<in>set pre. ParseFromString p = Inr (message p)"
    and "0 < off" and "off < 8 + length r"
    and "remaining f = take (length (wire_frames pre) + off) (wire_frames (pre @ r # post))"
  shows "write_protos open_wb (pre @ r # post)
           = Inr \<lparr>contents = wire_frames (pre @ r # post),
                  pos = length (wire_frames (pre @ r # post))\<rparr>
     \<and> (off < 8 \<longrightarrow> read_file ParseFromString f = Inl StructError)
     \<and> (8 \<le> off \<longrightarrow>
          length (take (off - 8) r) < length r
          \<and> read_file ParseFromString f =
              (case ParseFromString (take (off - 8) r) of
                 Inl e \<Rightarrow> Inl e
               | Inr proto \<Rightarrow>
                   Inr (map message pre @ [proto],
                        f\<lparr>pos := pos f + (length (wire_frames pre) + off)\<rparr>)))"
proof -
  from assms(1) have pre: "\<forall>p\<in>set pre. length p < 2 ^ 64" and r: "length r < 2 ^ 64"
    by simp_all
  note cut = read_file_truncated [OF pre r assms(2) assms(3) assms(4) assms(5)]
  have "write_protos open_wb (pre @ r # post)
           = Inr \<lparr>contents = wire_frames (pre @ r # post),
                  pos = length (wire_frames (pre @ r # post))\<rparr>"
    using write_protos_at_end [of open_wb "pre @ r # post"] assms(1)
    by (simp add: open_wb_def)
  moreover have "off < 8 \<longrightarrow> read_file ParseFromString f = Inl StructError"
    using cut by simp
  moreover have "8 \<le> off \<longrightarrow> length (take (off - 8) r) < length r"
    using assms(4) by auto
  moreover have "8 \<le> off \<longrightarrow> read_file ParseFromString f =
              (case ParseFromString (take (off - 8) r) of
                 Inl e \<Rightarrow> Inl e
               | Inr proto \<Rightarrow>
                   Inr (map message pre @ [proto],
                        f\<lparr>pos := pos f + (length (wire_frames pre) + off)\<rparr>))"
    using cut by simp
  ultimately show ?thesis by blast
qed

theorem C2_truncation_amended_witness:
  "length [0x0A, 3, 1, 2, 3 :: byte] < 2 ^ 64
   \<and> sample_ParseFromString [0x0A, 3, 1, 2, 3] = Inr [0x0A, 3, 1, 2, 3]
   \<and> read_file sample_ParseFromString
         (open_rb (take (length (wire_frames [[0x0A, 3, 1, 2, 3]]) + 3)
                     (wire_frames ([[0x0A, 3, 1, 2, 3]] @ [0x0A, 3, 1, 2, 3] # []))))
       = Inl StructError
   \<and> (\<exists>f'. read_file sample_ParseFromString
         (open_rb (take (length (wire_frames [[0x0A, 3, 1, 2, 3]]) + 8)
                     (wire_frames ([[0x0A, 3, 1, 2, 3]] @ [0x0A, 3, 1, 2, 3] # []))))
       = Inr ([[0x0A, 3, 1, 2, 3], []], f'))
   \<and> read_file sample_ParseFromString
         (open_rb (take (length (wire_frames [[0x0A, 3, 1, 2, 3]]) + 11)
                     (wire_frames ([[0x0A, 3, 1, 2, 3]] @ [0x0A, 3, 1, 2, 3] # []))))
       = Inl DecodeError"
proof -
  let ?r = "[0x0A, 3, 1, 2, 3 :: byte]"
  let ?c = "wire_frames ([?r] @ ?r # [])"
  let ?k = "length (wire_frames [?r])"
  have len: "\<forall>p\<in>set ([?r] @ ?r # []). length p < 2 ^ 64" by simp
  have whole: "sample_ParseFromString ?r = Inr ?r"
    and empty: "sample_ParseFromString [] = Inr []"
    and part: "sample_ParseFromString [0x0A, 3, 1] = Inl DecodeError"
    by (simp_all add: sample_ParseFromString_def)
  from whole have parse: "\<forall>p\<in>set [?r]. sample_ParseFromString p = Inr ((\<lambda>b. b) p)"
    by simp
  have rem: "remaining (open_rb (take (?k + n) ?c)) = take (?k + n) ?c" for n
    by (rule remaining_open_rb)
  have a: "(0::nat) < 3" "(3::nat) < 8 + length ?r" "(3::nat) < 8" by simp_all
  have b: "(0::nat) < 8" "(8::nat) < 8 + length ?r" "(8::nat) \<le> 8" by simp_all
  have c: "(0::nat) < 11" "(11::nat) < 8 + length ?r" "(8::nat) \<le> 11" by simp_all
  have "length ?r < 2 ^ 64" by simp
  moreover note whole
  moreover from C2_truncation_amended [OF len parse a(1,2) rem] a(3)
  have "read_file sample_ParseFromString (open_rb (take (?k + 3) ?c)) = Inl StructError"
    by blast
  moreover from C2_truncation_amended [OF len parse b(1,2) rem] b(3)
  have "\<exists>f'. read_file sample_ParseFromString (open_rb (take (?k + 8) ?c)) = Inr ([?r, []], f')"
    by (simp add: empty)
  moreover from C2_truncation_amended [OF len parse c(1,2) rem] c(3)
  have "read_file sample_ParseFromString (open_rb (take (?k + 11) ?c)) = Inl DecodeError"
    by (simp add: part)
  ultimately show ?thesis by blast
qed

section \<open>Failure of the length decoder\<close>

text \<open>
  C7, as stated, fails: on a file of 3 bytes the read loop gets these 3 bytes from
  \<^verbatim>\<open>read(8)\<close>, takes them for true and decodes them, and the decoder fails; that
  failure is the reader's.
\<close>

theorem C7_counterexample:
  "file_read (open_rb [1, 2, 3]) 8 = ([1, 2, 3], \<lparr>contents = [1, 2, 3], pos = 3\<rparr>)
   \<and> decode_length_prefix [1, 2, 3] = Inl StructError
   \<and> read_record (open_rb [1, 2, 3]) = (Inl StructError, \<lparr>contents = [1, 2, 3], pos = 3\<rparr>)
   \<and> read_protos (open_rb [1, 2, 3]) = Inl StructError"
proof -
  have rem: "remaining (open_rb [1, 2, 3]) \<noteq> []" "length (remaining (open_rb [1, 2, 3])) < 8"
    by (simp_all add: remaining_open_rb)
  have "file_read (open_rb [1, 2, 3]) 8 = ([1, 2, 3], \<lparr>contents = [1, 2, 3], pos = 3\<rparr>)"
    by (simp add: file_read_def open_rb_def Let_def)
  moreover have "decode_length_prefix [1, 2, 3] = Inl StructError"
    by (simp add: decode_length_prefix_def struct_unpack_Q_def)
  moreover have "read_record (open_rb [1, 2, 3]) = (Inl StructError, \<lparr>contents = [1, 2, 3], pos = 3\<rparr>)"
    using read_record_short [OF rem] by (simp add: remaining_def open_rb_def)
  moreover have "read_protos (open_rb [1, 2, 3]) = Inl StructError"
    by (rule read_protos_cut_in_length [OF rem])
  ultimately show ?thesis by simp
qed

lemma read_record_StructError_iff:
  "fst (read_record f) = Inl StructError \<longleftrightarrow> remaining f \<noteq> [] \<and> length (remaining f) < 8"
  by (auto simp: read_record_def file_read_eq struct_unpack_Q_def split: sum.splits)

text \<open>
  C7, amended: decoding a length fails exactly when the buffer is not 8 bytes long. The
  reader handles only the empty read itself: \<open>read_record\<close> fails, with the decoder's
  \<open>struct.error\<close>, exactly when 1 to 7 bytes are left where a length begins. Reading a
  file that consists of whole frames, each record no longer than an unsigned long long
  can count, never fails.
\<close>

theorem C7_decode_failure_amended:
  "(decode_length_prefix buf = Inl StructError \<longleftrightarrow> length buf \<noteq> 8)
   \<and> (fst (read_record f) = Inl StructError \<longleftrightarrow> remaining f \<noteq> [] \<and> length (remaining f) < 8)
   \<and> ((\<forall>r\<in>set rs. length r < 2 ^ 64) \<and> remaining g = wire_frames rs \<longrightarrow>
        (\<exists>res. read_protos g = Inr res))"
proof -
  have "decode_length_prefix buf = Inl StructError \<longleftrightarrow> length buf \<noteq> 8"
    by (simp add: decode_length_prefix_def struct_unpack_Q_def)
  moreover note read_record_StructError_iff [of f]
  moreover have "(\<forall>r\<in>set rs. length r < 2 ^ 64) \<and> remaining g = wire_frames rs \<longrightarrow>
        (\<exists>res. read_protos g = Inr res)"
    using read_protos_wire_frames [of rs g] by simp
  ultimately show ?thesis by blast
qed

theorem C7_decode_failure_amended_witness:
  "length [0x41 :: byte] < 2 ^ 64
   \<and> remaining (open_rb (wire_frames [[0x41]])) = wire_frames [[0x41]]
   \<and> (\<exists>res. read_protos (open_rb (wire_frames [[0x41]])) = Inr res)"
proof -
  have h1: "\<forall>r\<in>set [[0x41 :: byte]]. length r < 2 ^ 64" by simp
  have h2: "remaining (open_rb (wire_frames [[0x41]])) = wire_frames [[0x41]]"
    by (rule remaining_open_rb)
  have h3: "length [0x41 :: byte] < 2 ^ 64" by simp
  from h1 h2 h3
    C7_decode_failure_amended [of "[]" "open_rb []" "[[0x41]]" "open_rb (wire_frames [[0x41]])"]
  show ?thesis by blast
qed

section \<open>Order of the writes on a handle\<close>

lemma do_call_keeps_started:
  assumes "closed h \<or> metadata_written h \<or> 0 < records_written h"
    and "do_call h c = (r, h')"
  shows "closed h' \<or> metadata_written h' \<or> 0 < records_written h'"
  using assms
  by (cases c) (auto simp: write_metadata_def write_record_def close_def split: if_splits sum.splits)

lemma do_call_success_starts:
  assumes "do_call h c = (Inr (), h')"
  shows "closed h' \<or> metadata_written h' \<or> 0 < records_written h'"
  using assms
  by (cases c) (auto simp: write_metadata_def write_record_def close_def split: if_splits sum.splits)

lemma do_calls_keep_started:
  assumes "closed h \<or> metadata_written h \<or> 0 < records_written h"
    and "do_calls h cs = (rs, h')"
  shows "closed h' \<or> metadata_written h' \<or> 0 < records_written h'"
  using assms
proof (induction cs arbitrary: h rs h')
  case Nil
  then show ?case by simp
next
  case (Cons c cs)
  obtain r h1 where c: "do_call h c = (r, h1)" by (cases "do_call h c")
  obtain rs1 h2 where cs: "do_calls h1 cs = (rs1, h2)" by (cases "do_calls h1 cs")
  from Cons.prems(2) c cs have "h' = h2" by simp
  with Cons.IH [OF do_call_keeps_started [OF Cons.prems(1) c] cs] show ?case by simp
qed

lemma do_calls_success_starts:
  assumes "do_calls h cs = (rs, h')" and "i < length cs" and "rs ! i = Inr ()"
  shows "closed h' \<or> metadata_written h' \<or> 0 < records_written h'"
  using assms
proof (induction cs arbitrary: h rs i h')
  case Nil
  then show ?case by simp
next
  case (Cons c cs)
  obtain r h1 where c: "do_call h c = (r, h1)" by (cases "do_call h c")
  obtain rs1 h2 where cs: "do_calls h1 cs = (rs1, h2)" by (cases "do_calls h1 cs")
  from Cons.prems(1) c cs have rs: "rs = r # rs1" and h': "h' = h2" by simp_all
  show ?case
  proof (cases i)
    case 0
    with Cons.prems(3) rs have "r = Inr ()" by simp
    with c have "closed h1 \<or> metadata_written h1 \<or> 0 < records_written h1"
      by (simp add: do_call_success_starts)
    from do_calls_keep_started [OF this cs] h' show ?thesis by simp
  next
    case (Suc j)
    with Cons.prems(2,3) rs have "j < length cs" and "rs1 ! j = Inr ()" by simp_all
    from Cons.IH [OF cs this] h' show ?thesis by simp
  qed
qed

lemma write_metadata_fresh:
  assumes "length m < 2 ^ 64"
  shows "write_metadata (open_for_write open_wb) m =
           (Inr (), \<lparr>sink = \<lparr>contents = wire_frame m, pos = length (wire_frame m)\<rparr>,
                     metadata_written = True, records_written = 0, closed = False\<rparr>)"
  using write_frame_at_end [of open_wb m] assms
  by (simp add: write_metadata_def open_for_write_def open_wb_def)

text \<open>
  C6: a first \<open>write_metadata\<close> on a new handle is allowed and writes the one frame of
  the metadata. On a handle on which some earlier call of \<open>write_metadata\<close> or of
  \<open>write_record\<close> has succeeded, whatever other calls were made before or after it,
  \<open>write_metadata\<close> fails with \<open>ProtocolViolation\<close> and leaves the handle, and with it
  the sink, as it was: no frame is written for the rejected call. So the metadata is
  written at most once, and only before any record.
\<close>

theorem C6_write_metadata_once_and_first:
  assumes "do_calls (open_for_write s) calls = (results, h)"
    and "i < length calls"
    and "calls ! i = Write_metadata b \<or> calls ! i = Write_record b"
    and "results ! i = Inr ()"
    and "length m < 2 ^ 64"
  shows "write_metadata h m = (Inl ProtocolViolation, h)
     \<and> write_metadata (open_for_write open_wb) m =
           (Inr (), \<lparr>sink = \<lparr>contents = wire_frame m, pos = length (wire_frame m)\<rparr>,
                     metadata_written = True, records_written = 0, closed = False\<rparr>)"
proof
  from do_calls_success_starts [OF assms(1,2,4)]
  show "write_metadata h m = (Inl ProtocolViolation, h)"
    by (simp add: write_metadata_def)
  show "write_metadata (open_for_write open_wb) m =
           (Inr (), \<lparr>sink = \<lparr>contents = wire_frame m, pos = length (wire_frame m)\<rparr>,
                     metadata_written = True, records_written = 0, closed = False\<rparr>)"
    by (rule write_metadata_fresh [OF assms(5)])
qed

theorem C6_write_metadata_once_and_first_witness:
  "do_calls (open_for_write open_wb) [Write_metadata [0x6D], Write_record [0x41]]
     = ([Inr (), Inr ()],
        \<lparr>sink = \<lparr>contents = [1, 0, 0, 0, 0, 0, 0, 0, 0x6D, 1, 0, 0, 0, 0, 0, 0, 0, 0x41], pos = 18\<rparr>,
         metadata_written = True, records_written = 1, closed = False\<rparr>)
   \<and> length [0x6E :: byte] < 2 ^ 64
   \<and> write_metadata
        \<lparr>sink = \<lparr>contents = [1, 0, 0, 0, 0, 0, 0, 0, 0x6D, 1, 0, 0, 0, 0, 0, 0, 0, 0x41], pos = 18\<rparr>,
         metadata_written = True, records_written = 1, closed = False\<rparr> [0x6E]
     = (Inl ProtocolViolation,
        \<lparr>sink = \<lparr>contents = [1, 0, 0, 0, 0, 0, 0, 0, 0x6D, 1, 0, 0, 0, 0, 0, 0, 0, 0x41], pos = 18\<rparr>,
         metadata_written = True, records_written = 1, closed = False\<rparr>)"
proof -
  let ?h = "\<lparr>sink = \<lparr>contents = [1, 0, 0, 0, 0, 0, 0, 0, 0x6D, 1, 0, 0, 0, 0, 0, 0, 0, 0x41], pos = 18\<rparr>,
             metadata_written = True, records_written = 1, closed = False\<rparr>"
  have run: "do_calls (open_for_write open_wb) [Write_metadata [0x6D], Write_record [0x41]]
               = ([Inr (), Inr ()], ?h)"
    by (simp add: open_for_write_def open_wb_def write_metadata_def write_record_def
          write_frame_def struct_pack_Q_def le_bytes_8 file_write_def)
  have i: "(1::nat) < length [Write_metadata [0x6D], Write_record [0x41]]" by simp
  have c: "[Write_metadata [0x6D], Write_record [0x41]] ! 1 = Write_metadata [0x41]
           \<or> [Write_metadata [0x6D], Write_record [0x41]] ! 1 = Write_record [0x41]"
    by simp
  have r: "[Inr (), Inr ()] ! 1 = (Inr () :: error + unit)" by simp
  have m: "length [0x6E :: byte] < 2 ^ 64" by simp
  from C6_write_metadata_once_and_first [OF run i c r m] run m
  show ?thesis by blast
qed

section \<open>Length fidelity\<close>

text \<open>
  C4: for every payload \<open>p\<close> of at most \<open>2^64 - 1\<close> bytes the frame is produced (it is
  what the body of the write loop writes into a new file), decoding the first 8 bytes
  of the frame gives the length of \<open>p\<close>, and the frame is \<open>8 + len p\<close> bytes long.
\<close>

theorem C4_length_fidelity:
  assumes "length p \<le> 2 ^ 64 - 1"
  shows "\<exists>fr. encode_frame p = Inr fr
            \<and> write_frame open_wb p = Inr \<lparr>contents = fr, pos = length fr\<rparr>
            \<and> decode_length_prefix (take 8 fr) = Inr (length p)
            \<and> length fr = 8 + length p"
proof -
  from assms have n: "length p < 2 ^ 64" by simp
  have "write_frame open_wb p
          = Inr \<lparr>contents = le_bytes 8 (length p) @ p, pos = length (le_bytes 8 (length p) @ p)\<rparr>"
    using write_frame_at_end [of open_wb p] n by (simp add: open_wb_def wire_frame_def)
  with struct_unpack_pack [OF n]
  show ?thesis
    by (simp add: encode_frame_def decode_length_prefix_def length_le_bytes)
qed

theorem C4_length_fidelity_witness:
  "length [0x41, 0x41, 0x41 :: byte] \<le> 2 ^ 64 - 1
   \<and> (\<exists>fr. encode_frame [0x41, 0x41, 0x41] = Inr fr
            \<and> write_frame open_wb [0x41, 0x41, 0x41] = Inr \<lparr>contents = fr, pos = length fr\<rparr>
            \<and> decode_length_prefix (take 8 fr) = Inr (length [0x41, 0x41, 0x41 :: byte])
            \<and> length fr = 8 + length [0x41, 0x41, 0x41 :: byte])"
proof -
  have h: "length [0x41, 0x41, 0x41 :: byte] \<le> 2 ^ 64 - 1" by simp
  from h C4_length_fidelity [OF h] show ?thesis by (rule conjI)
qed

end
